theory Spec2Isabelle
  imports Complex_Main "HOL-Library.Monad_Syntax"
begin

section \<open>Gate synthesis by optimisation of a layered circuit\<close>

text \<open>
  The development follows the notebook \<^verbatim>\<open>doc/gallery/gate_synthesis/GateSynthesis.ipynb\<close>
  cell by cell. Arrays are lists (a matrix is the list of its rows), a raised exception is
  the value \<open>None\<close>, and the arithmetic of the arrays is the exact arithmetic of
  \<^typ>\<open>real\<close> and \<^typ>\<open>complex\<close>: the rounding of the 32 and 64 bit floating point
  numbers the libraries compute with is not part of the model.
\<close>

subsection \<open>Hyperparameters\<close>

text \<open>
  \<^verbatim>\<open>
  cutoff = 10
  gate_cutoff = 4
  depth = 25
  reps = 1000
  passive_sd = 0.1
  active_sd = 0.001
  \<close>
  The cell assigns six names and checks nothing.
\<close>

record config =
  cutoff :: int
  gate_cutoff :: int
  depth :: int
  reps :: int
  passive_sd :: real
  active_sd :: real

definition reference_config :: config where
  "reference_config =
     \<lparr>cutoff = 10, gate_cutoff = 4, depth = 25, reps = 1000,
      passive_sd = 1 / 10, active_sd = 1 / 1000\<rparr>"

text \<open>
  The configuration surface as the specification words it: \<open>cutoff\<close> an integer at least
  \<open>gate_cutoff\<close>, \<open>gate_cutoff\<close> and \<open>depth\<close> at least 1, \<open>reps\<close> at least 0, both
  standard deviations positive. The notebook has no such predicate; this one is written
  from the specification, to say which configurations it calls invalid.
\<close>

definition spec_valid_config :: "config \<Rightarrow> bool" where
  "spec_valid_config cfg \<longleftrightarrow>
     gate_cutoff cfg \<le> cutoff cfg \<and> 1 \<le> gate_cutoff cfg \<and> 1 \<le> depth cfg \<and>
     0 \<le> reps cfg \<and> 0 < passive_sd cfg \<and> 0 < active_sd cfg"

subsection \<open>The layer parameters\<close>

text \<open>
  \<^verbatim>\<open>
  sq_r = tf.Variable(tf.random_normal(shape=[depth], stddev=active_sd))
  sq_phi = tf.Variable(tf.random_normal(shape=[depth], stddev=passive_sd))
  d_r = tf.Variable(tf.random_normal(shape=[depth], stddev=active_sd))
  d_phi = tf.Variable(tf.random_normal(shape=[depth], stddev=passive_sd))
  r1 = tf.Variable(tf.random_normal(shape=[depth], stddev=passive_sd))
  r2 = tf.Variable(tf.random_normal(shape=[depth], stddev=passive_sd))
  kappa = tf.Variable(tf.random_normal(shape=[depth], stddev=active_sd))
  params = [r1, sq_r, sq_phi, r2, d_r, d_phi, kappa]
  \<close>
  In graph mode \<^verbatim>\<open>tf.random_normal\<close> returns a node of the graph, not numbers. Every call
  makes a node of its own: \<open>RandomNormal n shape mean stddev\<close> is the node of call number
  \<open>n\<close> of the cell (from 0), with the arguments of the call, \<^verbatim>\<open>mean\<close> being left at its
  default 0.0. What a node draws when the session initialises the variables is the
  sampler of the library and has no counterpart here: the model records which node each
  family is given, and that the call does not inspect the standard deviation.
  \<^verbatim>\<open>tf.Variable\<close> raises when the shape of its initial value has a negative dimension.
  The seven families are the fields of a record, in the order of the list \<^verbatim>\<open>params\<close>; the
  record is polymorphic, since the same seven names hold the initial values here, the
  elements of the variables in the graph, and the fetched values \<^verbatim>\<open>params_val\<close>.
\<close>

datatype initializer = RandomNormal nat "int list" real real

record 'a gate_parameters =
  r1 :: 'a
  sq_r :: 'a
  sq_phi :: 'a
  r2 :: 'a
  d_r :: 'a
  d_phi :: 'a
  kappa :: 'a

fun tf_Variable :: "initializer \<Rightarrow> initializer option" where
  "tf_Variable (RandomNormal n shape m sd) =
     (if list_all (\<lambda>d. 0 \<le> d) shape then Some (RandomNormal n shape m sd) else None)"

definition parameter_store :: "config \<Rightarrow> initializer gate_parameters option" where
  "parameter_store cfg =
     do {
       v_sq_r \<leftarrow> tf_Variable (RandomNormal 0 [depth cfg] 0 (active_sd cfg));
       v_sq_phi \<leftarrow> tf_Variable (RandomNormal 1 [depth cfg] 0 (passive_sd cfg));
       v_d_r \<leftarrow> tf_Variable (RandomNormal 2 [depth cfg] 0 (active_sd cfg));
       v_d_phi \<leftarrow> tf_Variable (RandomNormal 3 [depth cfg] 0 (passive_sd cfg));
       v_r1 \<leftarrow> tf_Variable (RandomNormal 4 [depth cfg] 0 (passive_sd cfg));
       v_r2 \<leftarrow> tf_Variable (RandomNormal 5 [depth cfg] 0 (passive_sd cfg));
       v_kappa \<leftarrow> tf_Variable (RandomNormal 6 [depth cfg] 0 (active_sd cfg));
       Some \<lparr>r1 = v_r1, sq_r = v_sq_r, sq_phi = v_sq_phi, r2 = v_r2, d_r = v_d_r,
             d_phi = v_d_phi, kappa = v_kappa\<rparr>
     }"

text \<open>
  In the graph \<^verbatim>\<open>r1[i]\<close> is not a number either but element \<open>i\<close> of the variable \<open>r1\<close>: a
  variable of shape \<open>[d]\<close> is the list of its \<open>d\<close> elements.
\<close>

datatype family = R1 | SQ_R | SQ_PHI | R2 | D_R | D_PHI | KAPPA

datatype tensor = Element family nat

definition variable_elements :: "nat \<Rightarrow> tensor list gate_parameters" where
  "variable_elements d =
     \<lparr>r1 = map (Element R1) [0..<d], sq_r = map (Element SQ_R) [0..<d],
      sq_phi = map (Element SQ_PHI) [0..<d], r2 = map (Element R2) [0..<d],
      d_r = map (Element D_R) [0..<d], d_phi = map (Element D_PHI) [0..<d],
      kappa = map (Element KAPPA) [0..<d]\<rparr>"

text \<open>The seven value sequences all have the length \<open>d\<close>.\<close>

definition well_shaped :: "nat \<Rightarrow> 'p list gate_parameters \<Rightarrow> bool" where
  "well_shaped d P \<longleftrightarrow>
     length (r1 P) = d \<and> length (sq_r P) = d \<and> length (sq_phi P) = d \<and> length (r2 P) = d \<and>
     length (d_r P) = d \<and> length (d_phi P) = d \<and> length (kappa P) = d"

subsection \<open>The layer\<close>

text \<open>
  \<^verbatim>\<open>
  def layer(i, q):
      Rgate(r1[i]) | q
      Sgate(sq_r[i], sq_phi[i]) | q
      Rgate(r2[i]) | q
      Dgate(d_r[i], d_phi[i]) | q
      Kgate(kappa[i]) | q
      return q
  \<close>
  An operation is a value, with parameters of a type left open (numbers when the gates
  are applied to states, elements of variables when the graph is built); \<^verbatim>\<open>op | q\<close> hands it, with the mode \<open>q\<close>, to the program under
  construction. The operator belongs to the library, so the layer takes it as the
  parameter \<open>app\<close>: a function from the operation, the mode and the current state of the
  construction to the new state, or \<open>None\<close> when it raises. An index beyond the end of a
  parameter sequence raises as well.
\<close>

datatype 'p operation =
    Ket "complex list list"
  | Rgate 'p
  | Sgate 'p 'p
  | Dgate 'p 'p
  | Kgate 'p

definition getitem :: "'a list \<Rightarrow> nat \<Rightarrow> 'a option" where
  "getitem xs i = (if i < length xs then Some (xs ! i) else None)"

definition layer ::
  "('p operation \<Rightarrow> 'q \<Rightarrow> 's \<Rightarrow> 's option) \<Rightarrow> 'p list gate_parameters \<Rightarrow> nat \<Rightarrow> 'q \<Rightarrow> 's
     \<Rightarrow> ('q \<times> 's) option" where
  "layer app P i q s =
     do {
       a \<leftarrow> getitem (r1 P) i;
       s \<leftarrow> app (Rgate a) q s;
       r \<leftarrow> getitem (sq_r P) i;
       ph \<leftarrow> getitem (sq_phi P) i;
       s \<leftarrow> app (Sgate r ph) q s;
       a \<leftarrow> getitem (r2 P) i;
       s \<leftarrow> app (Rgate a) q s;
       r \<leftarrow> getitem (d_r P) i;
       ph \<leftarrow> getitem (d_phi P) i;
       s \<leftarrow> app (Dgate r ph) q s;
       k \<leftarrow> getitem (kappa P) i;
       s \<leftarrow> app (Kgate k) q s;
       Some (q, s)
     }"

text \<open>Handing a list of operations over one after the other, stopping where one raises.\<close>

fun apply_all ::
  "('p operation \<Rightarrow> 'q \<Rightarrow> 's \<Rightarrow> 's option) \<Rightarrow> 'q \<Rightarrow> 'p operation list \<Rightarrow> 's \<Rightarrow> 's option" where
  "apply_all app q [] s = Some s"
| "apply_all app q (x # xs) s = (case app x q s of None \<Rightarrow> None | Some s' \<Rightarrow> apply_all app q xs s')"

text \<open>The five operations of layer \<open>i\<close>, in the order of the source.\<close>

definition layer_operations :: "'p list gate_parameters \<Rightarrow> nat \<Rightarrow> 'p operation list" where
  "layer_operations P i =
     [Rgate (r1 P ! i), Sgate (sq_r P ! i) (sq_phi P ! i), Rgate (r2 P ! i),
      Dgate (d_r P ! i) (d_phi P ! i), Kgate (kappa P ! i)]"

subsection \<open>The circuit\<close>

text \<open>
  \<^verbatim>\<open>
  in_ket = np.zeros([gate_cutoff, cutoff])
  np.fill_diagonal(in_ket, 1)

  prog = sf.Program(1)
  eng = sf.Engine('tf', backend_options={"cutoff_dim": cutoff, "batch_size": gate_cutoff})
  with prog.context as q:
      Ket(in_ket) | q
      for k in range(depth):
          layer(k, q[0])
  state = eng.run(prog, run_options={"eval": False}).state
  ket = state.ket()
  \<close>
  The program has one mode, the mode 0. The value \<open>layer\<close> returns is dropped by the loop.
\<close>

definition in_ket :: "nat \<Rightarrow> nat \<Rightarrow> complex list list" where
  "in_ket g c = map (\<lambda>i. map (\<lambda>j. if i = j then 1 else 0) [0..<c]) [0..<g]"

fun layers ::
  "('p operation \<Rightarrow> nat \<Rightarrow> 's \<Rightarrow> 's option) \<Rightarrow> 'p list gate_parameters \<Rightarrow> nat list \<Rightarrow> 's \<Rightarrow> 's option" where
  "layers app P [] s = Some s"
| "layers app P (k # ks) s =
     (case layer app P k 0 s of None \<Rightarrow> None | Some (q, s') \<Rightarrow> layers app P ks s')"

definition circuit ::
  "('p operation \<Rightarrow> nat \<Rightarrow> 's \<Rightarrow> 's option) \<Rightarrow> 'p list gate_parameters \<Rightarrow> nat \<Rightarrow> complex list list
     \<Rightarrow> 's \<Rightarrow> 's option" where
  "circuit app P d kets s =
     do {
       s \<leftarrow> app (Ket kets) 0 s;
       layers app P [0..<d] s
     }"

subsection \<open>The program and the engine\<close>

text \<open>
  Modelled from the spec: the program object of Strawberry Fields, whose code is not
  among the sources. Applying an operation to a mode inside the program context appends
  the pair of the operation and the mode to the program, a list kept in the order of the
  calls; appending never raises.
\<close>

type_synonym 'p program = "('p operation \<times> nat) list"

definition record_op :: "'p operation \<Rightarrow> nat \<Rightarrow> 'p program \<Rightarrow> 'p program option" where
  "record_op x q prog = Some (prog @ [(x, q)])"










subsection \<open>The cost function\<close>

text \<open>
  \<^verbatim>\<open>
  overlaps = tf.real(tf.einsum('bi,bi->b', tf.conj(target_kets), ket))
  mean_overlap = tf.reduce_mean(overlaps)
  cost = tf.reduce_sum(tf.abs(overlaps - 1))
  \<close>
  The contraction \<^verbatim>\<open>'bi,bi->b'\<close> needs two arrays of one shape and sums the products
  along the second axis. \<^verbatim>\<open>mean_overlap\<close> is a node of the graph that the notebook never
  fetches; it is left out.
\<close>

definition tf_conj :: "complex list list \<Rightarrow> complex list list" where
  "tf_conj A = map (map cnj) A"

definition einsum_bi_bi_b :: "complex list list \<Rightarrow> complex list list \<Rightarrow> complex list option" where
  "einsum_bi_bi_b A B =
     (if length A = length B \<and> list_all2 (\<lambda>a b. length a = length b) A B
      then Some (map2 (\<lambda>a b. sum_list (map2 (*) a b)) A B)
      else None)"

definition tf_real :: "complex list \<Rightarrow> real list" where
  "tf_real zs = map Re zs"

definition cost_of :: "real list \<Rightarrow> real" where
  "cost_of overlaps = sum_list (map (\<lambda>x. \<bar>x - 1\<bar>) overlaps)"

definition evaluate :: "complex list list \<Rightarrow> complex list list \<Rightarrow> (real \<times> real list) option" where
  "evaluate target_kets ket =
     do {
       products \<leftarrow> einsum_bi_bi_b (tf_conj target_kets) ket;
       let overlaps = tf_real products;
       Some (cost_of overlaps, overlaps)
     }"

subsection \<open>The optimisation loop\<close>

text \<open>
  \<^verbatim>\<open>
  overlap_progress = []
  cost_progress = []
  for i in range(reps):
      _, cost_val, overlaps_val, ket_val, params_val = session.run(
          [min_cost, cost, overlaps, ket, params])
      mean_overlap_val = np.mean(overlaps_val)
      cost_progress.append(cost_val)
      overlap_progress.append(overlaps_val)
      if i % 100 == 0:
          print("Rep: {} Cost: {:.4f} Mean overlap: {:.4f}".format(i, cost_val, mean_overlap_val))
  \<close>
  One call of \<^verbatim>\<open>session.run\<close> takes one optimiser step and returns the fetched values; the
  session, with the variables and the state of the optimiser in it, is a state of a type
  left open, and the call is a function from the session to the fetched values and the
  next session (a cost that is not finite is returned like any other; the call is taken
  to return). The loop has no \<^verbatim>\<open>break\<close> and no test of the cost. What is printed is
  kept as the list of the triples that are formatted.
\<close>

type_synonym fetched = "real \<times> real list \<times> complex list list \<times> real list gate_parameters"

type_synonym 's session_run = "'s \<Rightarrow> fetched \<times> 's"

record 's run_state =
  session :: 's
  cost_progress :: "real list"
  overlap_progress :: "real list list"
  last_fetched :: "(complex list list \<times> real list gate_parameters) option"
  printed :: "(nat \<times> real \<times> real) list"

definition np_mean :: "real list \<Rightarrow> real" where
  "np_mean xs = sum_list xs / real (length xs)"

definition initial_state :: "'s \<Rightarrow> 's run_state" where
  "initial_state s0 =
     \<lparr>session = s0, cost_progress = [], overlap_progress = [], last_fetched = None, printed = []\<rparr>"

definition iteration :: "'s session_run \<Rightarrow> nat \<Rightarrow> 's run_state \<Rightarrow> 's run_state" where
  "iteration run i st =
     (case run (session st) of
        ((cost_val, overlaps_val, ket_val, params_val), s') \<Rightarrow>
          let mean_overlap_val = np_mean overlaps_val
          in \<lparr>session = s',
              cost_progress = cost_progress st @ [cost_val],
              overlap_progress = overlap_progress st @ [overlaps_val],
              last_fetched = Some (ket_val, params_val),
              printed = (if i mod 100 = 0 then printed st @ [(i, cost_val, mean_overlap_val)]
                         else printed st)\<rparr>)"

definition range_py :: "int \<Rightarrow> nat list" where
  "range_py n = [0..<nat n]"

definition optimise :: "'s session_run \<Rightarrow> int \<Rightarrow> 's \<Rightarrow> 's run_state" where
  "optimise run n s0 = fold (iteration run) (range_py n) (initial_state s0)"

text \<open>
  The state of the run when \<open>k\<close> iterations are complete, the session after \<open>k\<close> calls,
  and what the call number \<open>k\<close> (from 0) fetches.
\<close>

definition after_iterations :: "'s session_run \<Rightarrow> nat \<Rightarrow> 's \<Rightarrow> 's run_state" where
  "after_iterations run k s0 = fold (iteration run) [0..<k] (initial_state s0)"

definition session_after :: "'s session_run \<Rightarrow> nat \<Rightarrow> 's \<Rightarrow> 's" where
  "session_after run k s0 = ((\<lambda>s. snd (run s)) ^^ k) s0"

definition fetched_at :: "'s session_run \<Rightarrow> nat \<Rightarrow> 's \<Rightarrow> fetched" where
  "fetched_at run k s0 = fst (run (session_after run k s0))"

subsection \<open>The target\<close>

text \<open>
  \<^verbatim>\<open>
  target_unitary = np.identity(cutoff, dtype=np.complex128)
  target_unitary[:gate_cutoff, :gate_cutoff] = random_interferometer(4)

  in_state = np.arange(gate_cutoff)
  target_kets = np.array([target_unitary[:, i] for i in in_state])
  \<close>
  The random unitary is the argument \<open>W\<close>, an array of two axes. A slice \<^verbatim>\<open>[:g, :g]\<close> of a
  square array of side \<open>c\<close> has side \<open>m = min g c\<close>, and the assignment raises unless each
  axis of \<open>W\<close> has the length \<open>m\<close> or the length 1, an axis of length 1 being stretched
  over the slice. Reading column \<open>i\<close> raises when the array has no such column.
\<close>

definition np_identity :: "nat \<Rightarrow> complex list list" where
  "np_identity n = map (\<lambda>i. map (\<lambda>j. if i = j then 1 else 0) [0..<n]) [0..<n]"

definition ncols :: "'a list list \<Rightarrow> nat" where
  "ncols M = (case M of [] \<Rightarrow> 0 | r # _ \<Rightarrow> length r)"

definition make_target_unitary :: "nat \<Rightarrow> nat \<Rightarrow> complex list list \<Rightarrow> complex list list option" where
  "make_target_unitary c g W =
     (let T = np_identity c; m = min g c; rows = length W; cols = ncols W
      in if list_all (\<lambda>r. length r = cols) W \<and> (rows = m \<or> rows = 1) \<and> (cols = m \<or> cols = 1)
         then Some (map (\<lambda>i. map (\<lambda>j.
                 if i < m \<and> j < m then W ! (if rows = 1 then 0 else i) ! (if cols = 1 then 0 else j)
                 else T ! i ! j) [0..<c]) [0..<c])
         else None)"

definition column :: "'a list list \<Rightarrow> nat \<Rightarrow> 'a list option" where
  "column M i = (if i < ncols M then Some (map (\<lambda>r. r ! i) M) else None)"

definition target_kets :: "complex list list \<Rightarrow> nat \<Rightarrow> complex list list option" where
  "target_kets T g = those (map (column T) [0..<g])"

subsection \<open>From the hyperparameters to the loop\<close>

text \<open>
  \<^verbatim>\<open>
  optimiser = tf.train.AdamOptimizer()
  min_cost = optimiser.minimize(cost)
  session = tf.Session()
  session.run(tf.global_variables_initializer())
  \<close>
  \<^verbatim>\<open>minimize\<close> raises when it finds no gradient for any variable, that is when the cost
  depends on none of them. The cost depends on the variables through the state the
  program produces, so through the parameters of the operations of the program.
\<close>

fun references :: "'p operation \<Rightarrow> 'p list" where
  "references (Ket ks) = []"
| "references (Rgate a) = [a]"
| "references (Sgate r ph) = [r, ph]"
| "references (Dgate r ph) = [r, ph]"
| "references (Kgate kp) = [kp]"

definition minimize :: "tensor program \<Rightarrow> unit option" where
  "minimize prog = (if concat (map (\<lambda>(x, q). references x) prog) = [] then None else Some ())"

text \<open>
  The cells before the loop, in their order: the variables, the input states
  (\<^verbatim>\<open>np.zeros\<close> raises on a negative dimension), the program over the elements of the
  variables (\<^verbatim>\<open>range(depth)\<close> is empty when \<open>depth\<close> is not positive), the target unitary
  and the target states, the optimiser. Each one either raises or hands its result on;
  none of them looks at \<open>reps\<close>, nor at \<open>passive_sd\<close> and \<open>active_sd\<close> but to pass them to the
  sampler. The numbers the session computes are not built here: the function of one
  \<^verbatim>\<open>session.run\<close> and the first session are arguments of the run.
\<close>

record prepared =
  store :: "initializer gate_parameters"
  graph_program :: "tensor program"
  input_kets :: "complex list list"
  targets :: "complex list list"

definition prepare :: "config \<Rightarrow> complex list list \<Rightarrow> prepared option" where
  "prepare cfg W =
     do {
       vars \<leftarrow> parameter_store cfg;
       (if gate_cutoff cfg < 0 \<or> cutoff cfg < 0 then None
        else
          let g = nat (gate_cutoff cfg); c = nat (cutoff cfg); d = nat (depth cfg)
          in do {
            prog \<leftarrow> circuit record_op (variable_elements d) d (in_ket g c) [];
            T \<leftarrow> make_target_unitary c g W;
            tk \<leftarrow> target_kets T g;
            _ \<leftarrow> minimize prog;
            Some \<lparr>store = vars, graph_program = prog, input_kets = in_ket g c, targets = tk\<rparr>
          })
     }"

definition run_notebook ::
  "'s session_run \<Rightarrow> 's \<Rightarrow> config \<Rightarrow> complex list list \<Rightarrow> 's run_state option" where
  "run_notebook run s0 cfg W =
     do {
       p \<leftarrow> prepare cfg W;
       Some (optimise run (reps cfg) s0)
     }"

subsection \<open>The learnt unitary and the process fidelity\<close>

text \<open>
  \<^verbatim>\<open>
  learnt_unitary = ket_val.T[:gate_cutoff, :gate_cutoff]
  target_unitary = target_unitary[:gate_cutoff, :gate_cutoff]

  I = np.identity(gate_cutoff)
  phi = I.flatten()/np.sqrt(gate_cutoff)
  psiV = np.kron(I, target_unitary) @ phi
  psiU = np.kron(I, learnt_unitary) @ phi
  np.abs(np.vdot(psiV, psiU))**2
  \<close>
  A slice never raises; the product of a matrix and a vector raises when a row of the
  matrix and the vector differ in length, and \<^verbatim>\<open>np.vdot\<close>, which conjugates its first
  argument, when its two arguments do.
\<close>

definition np_T :: "'a list list \<Rightarrow> 'a list list" where
  "np_T M = map (\<lambda>j. map (\<lambda>r. r ! j) M) [0..<ncols M]"

definition block :: "nat \<Rightarrow> 'a list list \<Rightarrow> 'a list list" where
  "block g M = map (take g) (take g M)"

definition learnt_unitary :: "complex list list \<Rightarrow> nat \<Rightarrow> complex list list" where
  "learnt_unitary ket_val g = block g (np_T ket_val)"

definition phi :: "nat \<Rightarrow> complex list" where
  "phi g = map (\<lambda>z. z / of_real (sqrt (real g))) (concat (np_identity g))"

definition kron :: "complex list list \<Rightarrow> complex list list \<Rightarrow> complex list list" where
  "kron A B = concat (map (\<lambda>a. map (\<lambda>b. concat (map (\<lambda>x. map (\<lambda>y. x * y) b) a)) B) A)"

definition matvec :: "complex list list \<Rightarrow> complex list \<Rightarrow> complex list option" where
  "matvec M v =
     (if list_all (\<lambda>r. length r = length v) M then Some (map (\<lambda>r. sum_list (map2 (*) r v)) M)
      else None)"

definition vdot :: "complex list \<Rightarrow> complex list \<Rightarrow> complex option" where
  "vdot a b = (if length a = length b then Some (sum_list (map2 (\<lambda>x y. cnj x * y) a b)) else None)"

definition process_fidelity :: "complex list list \<Rightarrow> complex list list \<Rightarrow> nat \<Rightarrow> real option" where
  "process_fidelity V U g =
     do {
       psiV \<leftarrow> matvec (kron (np_identity g) V) (phi g);
       psiU \<leftarrow> matvec (kron (np_identity g) U) (phi g);
       ip \<leftarrow> vdot psiV psiU;
       Some ((cmod ip)\<^sup>2)
     }"

definition diagnostics :: "complex list list \<Rightarrow> complex list list \<Rightarrow> nat \<Rightarrow> real option" where
  "diagnostics T ket_val g = process_fidelity (block g T) (learnt_unitary ket_val g) g"

subsection \<open>Notions the properties are stated with\<close>

text \<open>
  A matrix of side \<open>g\<close> is unitary when its columns are orthonormal; the squared norm of a
  state is the sum of the squared moduli of its amplitudes; the Euclidean norm of column
  \<open>j\<close> of a matrix is the root of that sum down the column. \<open>scale z\<close> multiplies a state by
  the number \<open>z\<close>, and \<open>phase_shifted\<close> multiplies the states of a batch by one phase each.
\<close>

definition is_unitary :: "nat \<Rightarrow> complex list list \<Rightarrow> bool" where
  "is_unitary g V \<longleftrightarrow>
     length V = g \<and> list_all (\<lambda>r. length r = g) V \<and>
     list_all (\<lambda>i. list_all (\<lambda>j. (\<Sum>m\<leftarrow>[0..<g]. cnj (V ! m ! i) * V ! m ! j) = (if i = j then 1 else 0))
       [0..<g]) [0..<g]"

definition norm_sq :: "complex list \<Rightarrow> real" where
  "norm_sq k = (\<Sum>z\<leftarrow>k. (cmod z)\<^sup>2)"

definition column_norm :: "complex list list \<Rightarrow> nat \<Rightarrow> real" where
  "column_norm M j = sqrt (\<Sum>r\<leftarrow>M. (cmod (r ! j))\<^sup>2)"

definition scale :: "complex \<Rightarrow> complex list \<Rightarrow> complex list" where
  "scale z k = map (\<lambda>x. z * x) k"

definition phase_shifted :: "real list \<Rightarrow> complex list list \<Rightarrow> complex list list" where
  "phase_shifted thetas kets = map2 (\<lambda>t k. scale (cis t) k) thetas kets"

subsection \<open>Concrete inputs\<close>

text \<open>
  Small inputs on which the theorems below are instantiated: parameters of one layer and
  of two layers, and a stand-in for the simulator on a truncated space of any dimension,
  with the two gates to first order in their magnitude, \<open>D = 1 + \<alpha> a\<^sup>+ - \<alpha>\<^sup>* a\<close> and
  \<open>S = 1 + (z\<^sup>* a\<^sup>2 - z (a\<^sup>+)\<^sup>2) / 2\<close>, where \<open>a\<close> and \<open>a\<^sup>+\<close> lower and raise the level and \<open>\<alpha>\<close>,
  \<open>z\<close> are the magnitude times the phase factor.
\<close>

definition example_parameters :: "real list gate_parameters" where
  "example_parameters =
     \<lparr>r1 = [1 / 10], sq_r = [1 / 1000], sq_phi = [1 / 5], r2 = [- 1 / 10], d_r = [2 / 1000],
      d_phi = [3 / 10], kappa = [1 / 1000]\<rparr>"






definition counting_run :: "nat session_run" where
  "counting_run s = ((1 / real (Suc s), [1 - 1 / real (Suc s)], [[1]], example_parameters), Suc s)"

text \<open>
  \<open>counting_run\<close> is a session that counts its calls. The configuration below differs
  from the notebook's in \<open>passive_sd = 0\<close> only.
\<close>

definition zero_sd_config :: config where
  "zero_sd_config = reference_config\<lparr>passive_sd := 0\<rparr>"

text \<open>
  Output batches: every state in the last Fock level; the swap of the first two levels
  with its target of cutoff 3; the states \<open>|0>\<close> and \<open>-|1>\<close>.
\<close>

definition leaked_batch :: "nat \<Rightarrow> nat \<Rightarrow> complex list list" where
  "leaked_batch g c = replicate g (map (\<lambda>m. if m = c - 1 then 1 else 0) [0..<c])"

definition swap_target :: "complex list list" where
  "swap_target = [[0, 1, 0], [1, 0, 0], [0, 0, 1]]"

definition swap_kets :: "complex list list" where
  "swap_kets = [[0, 1, 0], [1, 0, 0]]"

definition phase_flipped_kets :: "complex list list" where
  "phase_flipped_kets = [[1, 0, 0], [0, - 1, 0]]"

section \<open>Properties\<close>

subsection \<open>Sums over lists\<close>

lemma sum_list_map2_nth:
  "length xs = n \<Longrightarrow> length ys = n \<Longrightarrow> sum_list (map2 f xs ys) = (\<Sum>j<n. f (xs ! j) (ys ! j))"
  by (simp add: sum_list_sum_nth atLeast0LessThan)

lemma sum_list_map_nth:
  "sum_list (map f xs) = (\<Sum>i<length xs. f (xs ! i))"
  by (simp add: sum_list_sum_nth atLeast0LessThan)

subsection \<open>The cost function\<close>

lemma cost_of_nonneg: "0 \<le> cost_of xs"
  unfolding cost_of_def by (rule sum_list_nonneg) auto

lemma cost_of_zero_iff: "cost_of xs = 0 \<longleftrightarrow> (\<forall>x \<in> set xs. x = 1)"
proof -
  have "cost_of xs = 0 \<longleftrightarrow> (\<forall>y \<in> set (map (\<lambda>x. \<bar>x - 1\<bar>) xs). y = 0)"
    unfolding cost_of_def by (rule sum_list_nonneg_eq_0_iff) auto
  then show ?thesis by auto
qed

text \<open>
  Claim C4. For every vector of overlaps the cost is at least 0, and it is 0 exactly when
  every overlap is 1.
\<close>

theorem cost_lower_bound:
  "0 \<le> cost_of overlaps \<and> (cost_of overlaps = 0 \<longleftrightarrow> (\<forall>x \<in> set overlaps. x = 1))"
  using cost_of_nonneg cost_of_zero_iff by blast

theorem cost_lower_bound_witness:
  "cost_of [1, 1, 1] = 0 \<and> 0 < cost_of [1, 1 / 2, 1]"
  using cost_lower_bound [of "[1, 1, 1]"] cost_lower_bound [of "[1, 1 / 2, 1]"]
  by (simp add: less_le)

lemma einsum_defined:
  assumes "length A = g" "length B = g" "\<forall>i<g. length (A ! i) = n \<and> length (B ! i) = n"
  shows "einsum_bi_bi_b A B = Some (map (\<lambda>i. \<Sum>j<n. A ! i ! j * B ! i ! j) [0..<g])"
proof -
  have shape: "list_all2 (\<lambda>a b. length a = length b) A B"
    using assms by (simp add: list_all2_conv_all_nth)
  have "map2 (\<lambda>a b. sum_list (map2 (*) a b)) A B = map (\<lambda>i. \<Sum>j<n. A ! i ! j * B ! i ! j) [0..<g]"
    using assms by (intro nth_equalityI) (simp_all add: sum_list_map2_nth)
  with shape assms show ?thesis by (simp add: einsum_bi_bi_b_def)
qed

text \<open>
  Claim C1. For a batch of \<open>g\<close> output states and the batch of the \<open>g\<close> target states, all
  of dimension \<open>n\<close>, the cost function returns: the overlaps, whose entry \<open>i\<close> is the real
  part of the inner product of target state \<open>i\<close>, conjugated, with output state \<open>i\<close>; and
  the cost, the sum over all \<open>i\<close> of the absolute value of overlap \<open>i\<close> minus 1.
\<close>

theorem evaluate_overlaps_cost:
  assumes "length tks = g" and "length ket = g"
    and "\<forall>i<g. length (tks ! i) = n \<and> length (ket ! i) = n"
  shows "\<exists>c overlaps. evaluate tks ket = Some (c, overlaps) \<and> length overlaps = g \<and>
           (\<forall>i<g. overlaps ! i = Re (\<Sum>j<n. cnj (tks ! i ! j) * ket ! i ! j)) \<and>
           c = (\<Sum>i<g. \<bar>overlaps ! i - 1\<bar>)"
proof -
  define overlaps where "overlaps = map (\<lambda>i. Re (\<Sum>j<n. cnj (tks ! i ! j) * ket ! i ! j)) [0..<g]"
  have "einsum_bi_bi_b (tf_conj tks) ket =
          Some (map (\<lambda>i. \<Sum>j<n. tf_conj tks ! i ! j * ket ! i ! j) [0..<g])"
    using assms by (intro einsum_defined) (simp_all add: tf_conj_def)
  moreover have "map (\<lambda>i. \<Sum>j<n. tf_conj tks ! i ! j * ket ! i ! j) [0..<g] =
      map (\<lambda>i. \<Sum>j<n. cnj (tks ! i ! j) * ket ! i ! j) [0..<g]"
    using assms by (simp add: tf_conj_def)
  ultimately have "evaluate tks ket = Some (cost_of overlaps, overlaps)"
    by (simp add: evaluate_def tf_real_def overlaps_def comp_def Let_def)
  moreover have "length overlaps = g" by (simp add: overlaps_def)
  moreover have "\<forall>i<g. overlaps ! i = Re (\<Sum>j<n. cnj (tks ! i ! j) * ket ! i ! j)"
    by (simp add: overlaps_def)
  moreover have "cost_of overlaps = (\<Sum>i<g. \<bar>overlaps ! i - 1\<bar>)"
    unfolding cost_of_def using \<open>length overlaps = g\<close> by (simp add: sum_list_map_nth)
  ultimately show ?thesis by blast
qed

theorem evaluate_overlaps_cost_witness:
  "evaluate [[1, 0], [0, \<i>]] [[1, 0], [0, 1]] = Some (1, [1, 0])"
  using evaluate_overlaps_cost [of "[[1, 0], [0, \<i>]]" 2 "[[1, 0], [0, 1]]" 2]
  by (simp add: evaluate_def einsum_bi_bi_b_def tf_conj_def tf_real_def cost_of_def)

subsection \<open>The layer and the circuit\<close>

lemma getitem_in_range: "i < length xs \<Longrightarrow> getitem xs i = Some (xs ! i)"
  by (simp add: getitem_def)

lemma layer_unfold:
  assumes "well_shaped d P" and "i < d"
  shows "layer app P i q s = map_option (Pair q) (apply_all app q (layer_operations P i) s)"
  using assms
  by (simp add: layer_def well_shaped_def getitem_in_range layer_operations_def
      split: option.splits)

text \<open>
  Claim C2. For every layer index \<open>i\<close> within the depth and every state \<open>s\<close> of the
  program under construction, the layer hands over exactly five operations, in this
  order: a rotation by \<open>r1[i]\<close>, a squeezing of magnitude \<open>sq_r[i]\<close> and phase \<open>sq_phi[i]\<close>, a
  rotation by \<open>r2[i]\<close>, a displacement of magnitude \<open>d_r[i]\<close> and phase \<open>d_phi[i]\<close>, a Kerr
  gate of strength \<open>kappa[i]\<close>. Its whole effect is that of applying this list in order,
  whatever applying an operation does.
\<close>

theorem layer_five_operations:
  assumes "well_shaped d P" and "i < d"
  shows "layer app P i q s =
           map_option (Pair q)
             (apply_all app q
                [Rgate (r1 P ! i), Sgate (sq_r P ! i) (sq_phi P ! i), Rgate (r2 P ! i),
                 Dgate (d_r P ! i) (d_phi P ! i), Kgate (kappa P ! i)] s)"
  using layer_unfold [OF assms] by (simp add: layer_operations_def)

theorem layer_five_operations_witness:
  "layer record_op example_parameters 0 (0::nat) [] =
     Some (0, [(Rgate (1 / 10), 0), (Sgate (1 / 1000) (1 / 5), 0), (Rgate (- 1 / 10), 0),
               (Dgate (2 / 1000) (3 / 10), 0), (Kgate (1 / 1000), 0)])"
  using layer_five_operations [of 1 example_parameters 0 record_op 0 "[]"]
  by (simp add: well_shaped_def example_parameters_def record_op_def)

lemma apply_all_record: "apply_all record_op q xs prog = Some (prog @ map (\<lambda>x. (x, q)) xs)"
  by (induction xs arbitrary: prog) (simp_all add: record_op_def)

lemma layer_record:
  assumes "well_shaped d P" and "i < d"
  shows "layer record_op P i q prog = Some (q, prog @ map (\<lambda>x. (x, q)) (layer_operations P i))"
  by (simp add: layer_unfold [OF assms] apply_all_record)

lemma layers_record:
  assumes "well_shaped d P" and "\<forall>k \<in> set ks. k < d"
  shows "layers record_op P ks prog =
           Some (prog @ concat (map (\<lambda>k. map (\<lambda>x. (x, 0)) (layer_operations P k)) ks))"
  using assms(2)
proof (induction ks arbitrary: prog)
  case Nil
  then show ?case by simp
next
  case (Cons k ks)
  then show ?case by (simp add: layer_record [OF assms(1)])
qed

lemma circuit_record:
  assumes "well_shaped d P"
  shows "circuit record_op P d kets prog =
           Some (prog @ (Ket kets, 0) # concat (map (\<lambda>k. map (\<lambda>x. (x, 0)) (layer_operations P k)) [0..<d]))"
  by (simp add: circuit_def record_op_def layers_record [OF assms])






subsection \<open>The optimisation loop\<close>

lemma loop_Suc: "after_iterations run (Suc k) s0 = iteration run k (after_iterations run k s0)"
  by (simp add: after_iterations_def)

lemma session_after_Suc: "session_after run (Suc k) s0 = snd (run (session_after run k s0))"
  by (simp add: session_after_def)

lemma loop_session: "session (after_iterations run k s0) = session_after run k s0"
proof (induction k)
  case 0
  show ?case by (simp add: after_iterations_def initial_state_def session_after_def)
next
  case (Suc k)
  then show ?case
    by (simp add: loop_Suc session_after_Suc iteration_def split: prod.splits)
qed

lemma loop_cost_progress:
  "cost_progress (after_iterations run k s0) = map (\<lambda>j. fst (fetched_at run j s0)) [0..<k]"
proof (induction k)
  case 0
  show ?case by (simp add: after_iterations_def initial_state_def)
next
  case (Suc k)
  then show ?case
    by (simp add: loop_Suc iteration_def loop_session fetched_at_def split: prod.splits)
qed

lemma loop_overlap_progress:
  "overlap_progress (after_iterations run k s0) = map (\<lambda>j. fst (snd (fetched_at run j s0))) [0..<k]"
proof (induction k)
  case 0
  show ?case by (simp add: after_iterations_def initial_state_def)
next
  case (Suc k)
  then show ?case
    by (simp add: loop_Suc iteration_def loop_session fetched_at_def split: prod.splits)
qed

lemma optimise_loop: "optimise run n s0 = after_iterations run (nat n) s0"
  by (simp add: optimise_def after_iterations_def range_py_def)

lemma loop_split:
  assumes "k \<le> n"
  shows "after_iterations run n s0 = fold (iteration run) [k..<n] (after_iterations run k s0)"
proof -
  have "[0..<n] = [0..<k] @ [k..<n]"
    using assms by (metis le_add_diff_inverse upt_add_eq_append zero_le)
  then show ?thesis by (simp add: after_iterations_def)
qed

text \<open>
  Claim C5. For every \<open>reps\<close> of at least 0 the loop takes exactly \<open>reps\<close> iterations,
  whatever the session returns: both histories end with \<open>reps\<close> entries and the session
  has been run \<open>reps\<close> times; entry \<open>k\<close> of each history is what iteration \<open>k\<close> fetched; and
  when \<open>k\<close> iterations are complete the histories have exactly \<open>k\<close> entries, the first \<open>k\<close>
  of the final ones, the rest of the run being the iterations \<open>k\<close> to \<open>reps - 1\<close>.
\<close>

theorem loop_runs_reps_iterations:
  assumes "0 \<le> n"
  shows "int (length (cost_progress (optimise run n s0))) = n \<and>
         int (length (overlap_progress (optimise run n s0))) = n \<and>
         session (optimise run n s0) = session_after run (nat n) s0 \<and>
         (\<forall>k. int k < n \<longrightarrow>
            cost_progress (optimise run n s0) ! k = fst (fetched_at run k s0) \<and>
            overlap_progress (optimise run n s0) ! k = fst (snd (fetched_at run k s0))) \<and>
         (\<forall>k. int k \<le> n \<longrightarrow>
            length (cost_progress (after_iterations run k s0)) = k \<and>
            length (overlap_progress (after_iterations run k s0)) = k \<and>
            cost_progress (after_iterations run k s0) = take k (cost_progress (optimise run n s0)) \<and>
            overlap_progress (after_iterations run k s0) = take k (overlap_progress (optimise run n s0)) \<and>
            optimise run n s0 = fold (iteration run) [k..<nat n] (after_iterations run k s0))"
proof -
  have a: "int (length (cost_progress (optimise run n s0))) = n"
    using assms by (simp add: optimise_loop loop_cost_progress)
  have b: "int (length (overlap_progress (optimise run n s0))) = n"
    using assms by (simp add: optimise_loop loop_overlap_progress)
  have c: "session (optimise run n s0) = session_after run (nat n) s0"
    by (simp add: optimise_loop loop_session)
  have d: "cost_progress (optimise run n s0) ! k = fst (fetched_at run k s0) \<and>
           overlap_progress (optimise run n s0) ! k = fst (snd (fetched_at run k s0))"
    if "int k < n" for k
  proof -
    from that have "k < nat n" by simp
    then show ?thesis
      by (simp add: optimise_loop loop_cost_progress loop_overlap_progress)
  qed
  have e: "length (cost_progress (after_iterations run k s0)) = k \<and>
           length (overlap_progress (after_iterations run k s0)) = k \<and>
           cost_progress (after_iterations run k s0) = take k (cost_progress (optimise run n s0)) \<and>
           overlap_progress (after_iterations run k s0) = take k (overlap_progress (optimise run n s0)) \<and>
           optimise run n s0 = fold (iteration run) [k..<nat n] (after_iterations run k s0)"
    if "int k \<le> n" for k
  proof -
    from that have k: "k \<le> nat n" by simp
    then have "take k [0..<nat n] = [0..<k]" by simp
    then have pre: "cost_progress (after_iterations run k s0) = take k (cost_progress (optimise run n s0)) \<and>
               overlap_progress (after_iterations run k s0) = take k (overlap_progress (optimise run n s0))"
      by (simp add: optimise_loop loop_cost_progress loop_overlap_progress take_map)
    have rest: "optimise run n s0 = fold (iteration run) [k..<nat n] (after_iterations run k s0)"
      using loop_split [OF k, of run s0] by (simp add: optimise_loop)
    have len: "length (cost_progress (after_iterations run k s0)) = k \<and> length (overlap_progress (after_iterations run k s0)) = k"
      by (simp add: loop_cost_progress loop_overlap_progress)
    from pre rest len show ?thesis by blast
  qed
  from a b c d e show ?thesis by blast
qed

theorem loop_runs_reps_iterations_witness:
  "int (length (cost_progress (optimise counting_run 3 0))) = 3 \<and>
   session (optimise counting_run 3 0) = 3 \<and>
   cost_progress (optimise counting_run 3 0) = [1, 1 / 2, 1 / 3] \<and>
   cost_progress (after_iterations counting_run 2 0) = [1, 1 / 2]"
proof -
  have run: "optimise counting_run 3 0 = after_iterations counting_run 3 0"
    by (simp add: optimise_def after_iterations_def range_py_def)
  have three: "cost_progress (after_iterations counting_run 3 0) = [1, 1 / 2, 1 / 3]"
    by (simp add: after_iterations_def initial_state_def iteration_def counting_run_def
        numeral_3_eq_3)
  have s: "session_after counting_run (nat 3) 0 = 3"
    by (simp add: session_after_def counting_run_def numeral_3_eq_3)
  show ?thesis
    using loop_runs_reps_iterations [of 3 counting_run 0] run three s by simp
qed

subsection \<open>The learnt unitary\<close>

lemma ncols_rows:
  assumes "length M = g" and "0 < g" and "\<forall>k \<in> set M. length k = c"
  shows "ncols M = c"
  using assms by (cases M) (simp_all add: ncols_def)

lemma learnt_unitary_entries:
  assumes "g \<le> c" and "length ket_val = g" and "\<forall>k \<in> set ket_val. length k = c"
  shows "learnt_unitary ket_val g = map (\<lambda>m. map (\<lambda>r. r ! m) ket_val) [0..<g]"
proof (cases "g = 0")
  case True
  with assms show ?thesis by (simp add: learnt_unitary_def block_def np_T_def ncols_def)
next
  case False
  then have "ncols ket_val = c" using assms ncols_rows by blast
  then have "learnt_unitary ket_val g = map (take g) (take g (map (\<lambda>j. map (\<lambda>r. r ! j) ket_val) [0..<c]))"
    by (simp add: learnt_unitary_def block_def np_T_def)
  also have "\<dots> = map (\<lambda>m. take g (map (\<lambda>r. r ! m) ket_val)) [0..<g]"
    using assms(1) by (simp add: take_map comp_def)
  also have "\<dots> = map (\<lambda>m. map (\<lambda>r. r ! m) ket_val) [0..<g]"
    using assms(2) by simp
  finally show ?thesis .
qed

lemma learnt_unitary_nth:
  assumes "g \<le> c" and "length ket_val = g" and "\<forall>k \<in> set ket_val. length k = c"
    and "m < g" and "j < g"
  shows "learnt_unitary ket_val g ! m ! j = ket_val ! j ! m"
  using assms by (simp add: learnt_unitary_entries [OF assms(1-3)])

lemma norm_sq_sum: "norm_sq k = (\<Sum>m<length k. (cmod (k ! m))\<^sup>2)"
  by (simp add: norm_sq_def sum_list_map_nth)

lemma column_sum:
  assumes "g \<le> c" and "length ket_val = g" and "\<forall>k \<in> set ket_val. length k = c" and "j < g"
  shows "(\<Sum>r\<leftarrow>learnt_unitary ket_val g. (cmod (r ! j))\<^sup>2) = (\<Sum>m<g. (cmod (ket_val ! j ! m))\<^sup>2)"
proof -
  have "(\<Sum>r\<leftarrow>learnt_unitary ket_val g. (cmod (r ! j))\<^sup>2) =
          (\<Sum>m\<leftarrow>[0..<g]. (cmod (map (\<lambda>r. r ! m) ket_val ! j))\<^sup>2)"
    by (simp add: learnt_unitary_entries [OF assms(1-3)] comp_def)
  also have "\<dots> = (\<Sum>m<g. (cmod (ket_val ! j ! m))\<^sup>2)"
    using assms(2,4) by (simp add: sum_list_map_nth)
  finally show ?thesis .
qed

lemma norm_sq_split:
  assumes "g \<le> c" and "length k = c"
  shows "norm_sq k = (\<Sum>m<g. (cmod (k ! m))\<^sup>2) + (\<Sum>m=g..<c. (cmod (k ! m))\<^sup>2)"
proof -
  have "{..<c} = {..<g} \<union> {g..<c}" using assms(1) by auto
  moreover have "{..<g} \<inter> {g..<c} = {}" by auto
  ultimately have "(\<Sum>m<c. (cmod (k ! m))\<^sup>2) = (\<Sum>m<g. (cmod (k ! m))\<^sup>2) + (\<Sum>m=g..<c. (cmod (k ! m))\<^sup>2)"
    by (simp add: sum.union_disjoint)
  then show ?thesis using assms(2) by (simp add: norm_sq_sum)
qed

lemma tail_zero_iff:
  "(\<Sum>m=g..<c. (cmod ((k::complex list) ! m))\<^sup>2) = 0 \<longleftrightarrow> (\<forall>m. g \<le> m \<and> m < c \<longrightarrow> k ! m = 0)"
proof -
  have "(\<Sum>m=g..<c. (cmod (k ! m))\<^sup>2) = 0 \<longleftrightarrow> (\<forall>m\<in>{g..<c}. (cmod (k ! m))\<^sup>2 = 0)"
    by (rule sum_nonneg_eq_0_iff) simp_all
  then show ?thesis by auto
qed

lemma column_norm_bound:
  assumes "g \<le> c" and "length ket_val = g" and "\<forall>k \<in> set ket_val. length k = c \<and> norm_sq k \<le> 1"
    and "j < g"
  shows "column_norm (learnt_unitary ket_val g) j \<le> 1"
    and "column_norm (learnt_unitary ket_val g) j = 1 \<longleftrightarrow>
           norm_sq (ket_val ! j) = 1 \<and> (\<forall>m. g \<le> m \<and> m < c \<longrightarrow> ket_val ! j ! m = 0)"
proof -
  have rows: "\<forall>k \<in> set ket_val. length k = c" using assms(3) by blast
  have kj: "ket_val ! j \<in> set ket_val" using assms(2,4) by simp
  then have len: "length (ket_val ! j) = c" and le: "norm_sq (ket_val ! j) \<le> 1"
    using assms(3) by blast+
  let ?head = "\<Sum>m<g. (cmod (ket_val ! j ! m))\<^sup>2"
  let ?tail = "\<Sum>m=g..<c. (cmod (ket_val ! j ! m))\<^sup>2"
  have split: "norm_sq (ket_val ! j) = ?head + ?tail"
    by (rule norm_sq_split [OF assms(1) len])
  have tail: "0 \<le> ?tail" by (rule sum_nonneg) simp
  have col: "column_norm (learnt_unitary ket_val g) j = sqrt ?head"
    by (simp add: column_norm_def column_sum [OF assms(1,2) rows assms(4)])
  show "column_norm (learnt_unitary ket_val g) j \<le> 1"
    using split tail le by (simp add: col)
  have "column_norm (learnt_unitary ket_val g) j = 1 \<longleftrightarrow> norm_sq (ket_val ! j) = 1 \<and> ?tail = 0"
    using split tail le by (simp add: col) linarith
  then show "column_norm (learnt_unitary ket_val g) j = 1 \<longleftrightarrow>
           norm_sq (ket_val ! j) = 1 \<and> (\<forall>m. g \<le> m \<and> m < c \<longrightarrow> ket_val ! j ! m = 0)"
    by (simp only: tail_zero_iff)
qed

lemma leaked_batch_unit:
  assumes "0 < c" and "k \<in> set (leaked_batch g c)"
  shows "length k = c \<and> norm_sq k = 1"
proof -
  have k: "k = map (\<lambda>m. if m = c - 1 then 1 else 0) [0..<c]"
    using assms(2) by (auto simp add: leaked_batch_def)
  have "(\<Sum>m<c. (cmod (if m = c - 1 then 1 else 0))\<^sup>2) = (\<Sum>m<c. if m = c - 1 then 1 else 0)"
    by (intro sum.cong) auto
  also have "\<dots> = 1" using assms(1) by simp
  finally show ?thesis by (simp add: k norm_sq_sum)
qed

lemma is_unitary_diagonal:
  assumes "is_unitary g V" and "j < g"
  shows "(\<Sum>m<g. cnj (V ! m ! j) * V ! m ! j) = 1"
proof -
  have "list_all (\<lambda>i. list_all (\<lambda>j. (\<Sum>m\<leftarrow>[0..<g]. cnj (V ! m ! i) * V ! m ! j) = (if i = j then 1 else 0))
       [0..<g]) [0..<g]"
    using assms(1) by (simp add: is_unitary_def)
  then have "(\<Sum>m\<leftarrow>[0..<g]. cnj (V ! m ! j) * V ! m ! j) = 1"
    using assms(2) by (auto simp add: list_all_iff)
  then show ?thesis by (simp add: interv_sum_list_conv_sum_set_nat atLeast0LessThan)
qed

lemma leaked_batch_not_unitary:
  assumes "0 < g" and "g < c"
  shows "\<not> is_unitary g (learnt_unitary (leaked_batch g c) g)"
proof
  assume u: "is_unitary g (learnt_unitary (leaked_batch g c) g)"
  have rows: "\<forall>k \<in> set (leaked_batch g c). length k = c"
    by (simp add: leaked_batch_def)
  have len: "length (leaked_batch g c) = g"
    by (simp add: leaked_batch_def)
  have "learnt_unitary (leaked_batch g c) g ! m ! 0 = 0" if "m < g" for m
  proof -
    have "learnt_unitary (leaked_batch g c) g ! m ! 0 = leaked_batch g c ! 0 ! m"
      using assms that by (intro learnt_unitary_nth [OF _ len rows]) simp_all
    also have "\<dots> = 0"
      using assms that by (simp add: leaked_batch_def)
    finally show ?thesis .
  qed
  then have "(\<Sum>m<g. cnj (learnt_unitary (leaked_batch g c) g ! m ! 0) * learnt_unitary (leaked_batch g c) g ! m ! 0) = 0"
    by simp
  with is_unitary_diagonal [OF u assms(1)] show False by simp
qed

text \<open>
  Claim C10. For a batch of \<open>g\<close> output states of norm at most 1 (of norm 1 when the
  simulated evolution preserves the norm), each column of the learnt unitary, the
  transpose of the batch cut to its first \<open>g\<close> rows and columns, has Euclidean norm at most
  1, and norm 1 exactly when the output state of that column has norm 1 and no amplitude
  beyond the first \<open>g\<close> levels. So the block need not be unitary: whenever the cutoff
  exceeds \<open>g\<close> there is a batch of unit-norm states whose block is not.
\<close>

theorem learnt_columns_at_most_unit:
  assumes "g \<le> c" and "length ket_val = g"
    and "\<forall>k \<in> set ket_val. length k = c \<and> norm_sq k \<le> 1"
  shows "(\<forall>j<g. column_norm (learnt_unitary ket_val g) j \<le> 1 \<and>
            (column_norm (learnt_unitary ket_val g) j = 1 \<longleftrightarrow>
               norm_sq (ket_val ! j) = 1 \<and> (\<forall>m. g \<le> m \<and> m < c \<longrightarrow> ket_val ! j ! m = 0))) \<and>
         (0 < g \<and> g < c \<longrightarrow>
            (\<exists>kv. length kv = g \<and> (\<forall>k \<in> set kv. length k = c \<and> norm_sq k = 1) \<and>
               \<not> is_unitary g (learnt_unitary kv g)))"
proof -
  have "\<exists>kv. length kv = g \<and> (\<forall>k \<in> set kv. length k = c \<and> norm_sq k = 1) \<and>
               \<not> is_unitary g (learnt_unitary kv g)" if "0 < g" and "g < c"
  proof -
    have "length (leaked_batch g c) = g" by (simp add: leaked_batch_def)
    moreover have "\<forall>k \<in> set (leaked_batch g c). length k = c \<and> norm_sq k = 1"
      using leaked_batch_unit [of c _ g] that by auto
    ultimately show ?thesis
      using leaked_batch_not_unitary [OF that] by blast
  qed
  with column_norm_bound [OF assms] show ?thesis by blast
qed

theorem learnt_columns_at_most_unit_witness:
  "column_norm (learnt_unitary [[3 / 5, 0, 4 / 5], [0, 1, 0]] 2) 0 \<le> 1 \<and>
   column_norm (learnt_unitary [[3 / 5, 0, 4 / 5], [0, 1, 0]] 2) 0 \<noteq> 1 \<and>
   column_norm (learnt_unitary [[3 / 5, 0, 4 / 5], [0, 1, 0]] 2) 1 = 1"
proof -
  have unit: "\<forall>k \<in> set [[3 / 5, 0, 4 / 5], [0, 1, 0 :: complex]]. length k = 3 \<and> norm_sq k \<le> 1"
    by (simp add: norm_sq_def power2_eq_square)
  have one: "norm_sq ([[3 / 5, 0, 4 / 5], [0, 1, 0 :: complex]] ! 1) = 1"
    by (simp add: norm_sq_def)
  have a: "\<not> (\<forall>m. 2 \<le> m \<and> m < 3 \<longrightarrow> [[3 / 5, 0, 4 / 5], [0, 1, 0 :: complex]] ! 0 ! m = 0)"
    by (auto intro: exI [of _ 2])
  have b: "\<forall>m. 2 \<le> m \<and> m < 3 \<longrightarrow> [[3 / 5, 0, 4 / 5], [0, 1, 0 :: complex]] ! 1 ! m = 0"
  proof (intro allI impI)
    fix m :: nat assume "2 \<le> m \<and> m < 3"
    then have "m = 2" by simp
    then show "[[3 / 5, 0, 4 / 5], [0, 1, 0 :: complex]] ! 1 ! m = 0" by simp
  qed
  show ?thesis
    using learnt_columns_at_most_unit [of 2 3 "[[3 / 5, 0, 4 / 5], [0, 1, 0]]"] unit one a b
    by auto
qed

subsection \<open>The process fidelity\<close>

lemma zip_concat_map:
  "(\<And>k. k \<in> set ks \<Longrightarrow> length (A k) = length (B k)) \<Longrightarrow>
     zip (concat (map A ks)) (concat (map B ks)) = concat (map (\<lambda>k. zip (A k) (B k)) ks)"
  by (induction ks) (simp_all add: zip_append)

lemma sum_list_concat_map:
  "sum_list (concat (map F ks)) = (\<Sum>k\<leftarrow>ks. sum_list (F k))"
  by (induction ks) simp_all

lemma sum_list_map2_concat:
  assumes "\<And>k. k \<in> set ks \<Longrightarrow> length (A k) = length (B k)"
  shows "sum_list (map2 f (concat (map A ks)) (concat (map B ks))) =
           (\<Sum>k\<leftarrow>ks. sum_list (map2 f (A k) (B k)))"
  by (simp add: zip_concat_map [OF assms] map_concat sum_list_concat_map comp_def)

lemma sum_list_upt: "(\<Sum>k\<leftarrow>[0..<n]. f k) = (\<Sum>k<n. f k)"
  by (simp add: interv_sum_list_conv_sum_set_nat atLeast0LessThan)

lemma length_concat_const:
  "(\<And>k. k \<in> set ks \<Longrightarrow> length (A k) = n) \<Longrightarrow> length (concat (map A ks)) = length ks * n"
  by (induction ks) simp_all

lemma phi_concat:
  "phi g = concat (map (\<lambda>i. map (\<lambda>l. (if i = l then 1 else 0) / of_real (sqrt (real g))) [0..<g]) [0..<g])"
  by (simp add: phi_def np_identity_def map_concat comp_def)

lemma length_phi: "length (phi g) = g * g"
  unfolding phi_concat by (subst length_concat_const [where n = g]) simp_all

lemma kron_identity:
  "kron (np_identity g) X =
     concat (map (\<lambda>j. map (\<lambda>b. concat (map (\<lambda>k. map (\<lambda>y. (if j = k then 1 else 0) * y) b) [0..<g])) X) [0..<g])"
  by (simp add: kron_def np_identity_def comp_def)

lemma row_dot_phi:
  assumes "length b = g" and "j < g"
  shows "sum_list (map2 (*) (concat (map (\<lambda>k. map (\<lambda>y. (if j = k then 1 else 0) * y) b) [0..<g])) (phi g)) =
           b ! j / of_real (sqrt (real g))"
proof -
  let ?s = "complex_of_real (sqrt (real g))"
  have inner: "sum_list (map2 (*) (map (\<lambda>y. (if j = k then 1 else 0) * y) b)
                  (map (\<lambda>l. (if k = l then 1 else 0) / ?s) [0..<g])) =
               (if j = k then b ! j / ?s else 0)" if "k < g" for k
  proof -
    have "sum_list (map2 (*) (map (\<lambda>y. (if j = k then 1 else 0) * y) b)
                  (map (\<lambda>l. (if k = l then 1 else 0) / ?s) [0..<g])) =
          (\<Sum>l<g. ((if j = k then 1 else 0) * b ! l) * ((if k = l then 1 else 0) / ?s))"
      using assms(1) by (simp add: sum_list_map2_nth)
    also have "\<dots> = (\<Sum>l<g. if l = k then (if j = k then b ! k / ?s else 0) else 0)"
      by (intro sum.cong) auto
    also have "\<dots> = (if j = k then b ! k / ?s else 0)"
      using that by simp
    finally show ?thesis by auto
  qed
  have "sum_list (map2 (*) (concat (map (\<lambda>k. map (\<lambda>y. (if j = k then 1 else 0) * y) b) [0..<g])) (phi g)) =
          (\<Sum>k\<leftarrow>[0..<g]. sum_list (map2 (*) (map (\<lambda>y. (if j = k then 1 else 0) * y) b)
                  (map (\<lambda>l. (if k = l then 1 else 0) / ?s) [0..<g])))"
    unfolding phi_concat using assms(1) by (intro sum_list_map2_concat) simp
  also have "\<dots> = (\<Sum>k<g. sum_list (map2 (*) (map (\<lambda>y. (if j = k then 1 else 0) * y) b)
                  (map (\<lambda>l. (if k = l then 1 else 0) / ?s) [0..<g])))"
    by (rule sum_list_upt)
  also have "\<dots> = (\<Sum>k<g. if k = j then b ! j / ?s else 0)"
    by (intro sum.cong) (auto simp add: inner)
  also have "\<dots> = b ! j / ?s"
    using assms(2) by simp
  finally show ?thesis .
qed

lemma matvec_kron_phi:
  assumes "\<forall>b \<in> set X. length b = g"
  shows "matvec (kron (np_identity g) X) (phi g) =
           Some (concat (map (\<lambda>j. map (\<lambda>b. b ! j / of_real (sqrt (real g))) X) [0..<g]))"
proof -
  have len: "length (concat (map (\<lambda>k. map (\<lambda>y. (if j = k then 1 else 0) * y) b) [0..<g])) = g * g"
    if "b \<in> set X" for b and j :: nat
    using assms that by (subst length_concat_const [where n = g]) simp_all
  have shape: "list_all (\<lambda>r. length r = length (phi g)) (kron (np_identity g) X)"
    by (auto simp add: list_all_iff kron_identity length_phi len)
  have "map (\<lambda>r. sum_list (map2 (*) r (phi g))) (kron (np_identity g) X) =
          concat (map (\<lambda>j. map (\<lambda>b. b ! j / of_real (sqrt (real g))) X) [0..<g])"
    unfolding kron_identity map_concat
    using assms by (intro arg_cong [where f = concat] map_cong refl) (simp add: row_dot_phi)
  with shape show ?thesis by (simp add: matvec_def)
qed

lemma sqrt_square_complex: "complex_of_real (sqrt (real g)) * complex_of_real (sqrt (real g)) = of_nat g"
proof -
  have "complex_of_real (sqrt (real g)) * complex_of_real (sqrt (real g)) =
          complex_of_real (sqrt (real g) * sqrt (real g))"
    by (simp only: of_real_mult)
  then show ?thesis by simp
qed

lemma process_fidelity_value:
  assumes "length V = g" and "\<forall>b \<in> set V. length b = g"
    and "length U = g" and "\<forall>b \<in> set U. length b = g"
  shows "process_fidelity V U g =
           Some ((cmod ((\<Sum>j<g. \<Sum>m<g. cnj (V ! m ! j) * U ! m ! j) / of_nat g))\<^sup>2)"
proof -
  let ?s = "complex_of_real (sqrt (real g))"
  let ?psi = "\<lambda>X. concat (map (\<lambda>j. map (\<lambda>b. b ! j / ?s) X) [0..<g])"
  have lenV: "length (?psi V) = g * g"
    using assms(1) by (subst length_concat_const [where n = g]) simp_all
  have lenU: "length (?psi U) = g * g"
    using assms(3) by (subst length_concat_const [where n = g]) simp_all
  have inner: "sum_list (map2 (\<lambda>x y. cnj x * y) (map (\<lambda>b. b ! j / ?s) V) (map (\<lambda>b. b ! j / ?s) U)) =
                 (\<Sum>m<g. cnj (V ! m ! j) * U ! m ! j) / of_nat g" for j
  proof -
    have "sum_list (map2 (\<lambda>x y. cnj x * y) (map (\<lambda>b. b ! j / ?s) V) (map (\<lambda>b. b ! j / ?s) U)) =
            (\<Sum>m<g. cnj (V ! m ! j / ?s) * (U ! m ! j / ?s))"
      using assms(1,3) by (simp add: sum_list_map2_nth)
    also have "\<dots> = (\<Sum>m<g. cnj (V ! m ! j) * U ! m ! j / (?s * ?s))"
      by (intro sum.cong) simp_all
    also have "\<dots> = (\<Sum>m<g. cnj (V ! m ! j) * U ! m ! j / of_nat g)"
      by (simp only: sqrt_square_complex)
    also have "\<dots> = (\<Sum>m<g. cnj (V ! m ! j) * U ! m ! j) / of_nat g"
      by (simp add: sum_divide_distrib)
    finally show ?thesis .
  qed
  have "sum_list (map2 (\<lambda>x y. cnj x * y) (?psi V) (?psi U)) =
          (\<Sum>j\<leftarrow>[0..<g]. sum_list (map2 (\<lambda>x y. cnj x * y) (map (\<lambda>b. b ! j / ?s) V) (map (\<lambda>b. b ! j / ?s) U)))"
    using assms(1,3) by (intro sum_list_map2_concat) simp
  also have "\<dots> = (\<Sum>j<g. (\<Sum>m<g. cnj (V ! m ! j) * U ! m ! j) / of_nat g)"
    by (simp add: sum_list_upt inner)
  also have "\<dots> = (\<Sum>j<g. \<Sum>m<g. cnj (V ! m ! j) * U ! m ! j) / of_nat g"
    by (simp add: sum_divide_distrib)
  finally have "vdot (?psi V) (?psi U) = Some ((\<Sum>j<g. \<Sum>m<g. cnj (V ! m ! j) * U ! m ! j) / of_nat g)"
    using lenV lenU by (simp add: vdot_def)
  then show ?thesis
    by (simp add: process_fidelity_def matvec_kron_phi [OF assms(2)] matvec_kron_phi [OF assms(4)])
qed

lemma block_shape:
  assumes "g \<le> c" and "length T = c" and "\<forall>r \<in> set T. length r = c"
  shows "length (block g T) = g" and "\<forall>b \<in> set (block g T). length b = g"
    and "\<And>m j. m < g \<Longrightarrow> j < g \<Longrightarrow> block g T ! m ! j = T ! m ! j"
proof -
  show "length (block g T) = g" using assms by (simp add: block_def)
  show "\<forall>b \<in> set (block g T). length b = g"
    using assms by (auto simp add: block_def dest: in_set_takeD)
  show "block g T ! m ! j = T ! m ! j" if "m < g" and "j < g" for m j
    using assms that by (simp add: block_def)
qed

lemma learnt_unitary_shape:
  assumes "g \<le> c" and "length ket_val = g" and "\<forall>k \<in> set ket_val. length k = c"
  shows "length (learnt_unitary ket_val g) = g" and "\<forall>b \<in> set (learnt_unitary ket_val g). length b = g"
  using assms(2) by (auto simp add: learnt_unitary_entries [OF assms])

lemma diagnostics_value:
  assumes "g \<le> c" and "length T = c" and "\<forall>r \<in> set T. length r = c"
    and "length ket_val = g" and "\<forall>k \<in> set ket_val. length k = c"
  shows "diagnostics T ket_val g =
           Some ((cmod ((\<Sum>j<g. \<Sum>m<g. cnj (T ! m ! j) * ket_val ! j ! m) / of_nat g))\<^sup>2)"
proof -
  have "(\<Sum>j<g. \<Sum>m<g. cnj (block g T ! m ! j) * learnt_unitary ket_val g ! m ! j) =
          (\<Sum>j<g. \<Sum>m<g. cnj (T ! m ! j) * ket_val ! j ! m)"
    by (intro sum.cong refl)
      (simp add: block_shape(3) [OF assms(1-3)] learnt_unitary_nth [OF assms(1,4,5)])
  then show ?thesis
    unfolding diagnostics_def
    by (simp add: process_fidelity_value [OF block_shape(1,2) [OF assms(1-3)]
          learnt_unitary_shape [OF assms(1,4,5)]])
qed

lemma product_le_half_squares: "cmod (cnj a * b) \<le> ((cmod a)\<^sup>2 + (cmod b)\<^sup>2) / 2"
proof -
  have "0 \<le> (cmod a - cmod b)\<^sup>2" by simp
  then have "2 * (cmod a * cmod b) \<le> (cmod a)\<^sup>2 + (cmod b)\<^sup>2"
    by (simp add: power2_diff)
  then show ?thesis by (simp add: norm_mult)
qed

lemma trace_bound:
  assumes "\<And>j. j < g \<Longrightarrow> (\<Sum>m<g. (cmod (v m j))\<^sup>2) \<le> 1"
    and "\<And>j. j < g \<Longrightarrow> (\<Sum>m<g. (cmod (u m j))\<^sup>2) \<le> 1"
  shows "cmod (\<Sum>j<g. \<Sum>m<g. cnj (v m j) * u m j) \<le> real g"
proof -
  have "cmod (\<Sum>j<g. \<Sum>m<g. cnj (v m j) * u m j) \<le> (\<Sum>j<g. cmod (\<Sum>m<g. cnj (v m j) * u m j))"
    by (rule norm_sum)
  also have "\<dots> \<le> (\<Sum>j<g. \<Sum>m<g. cmod (cnj (v m j) * u m j))"
    by (intro sum_mono norm_sum)
  also have "\<dots> \<le> (\<Sum>j<g. \<Sum>m<g. ((cmod (v m j))\<^sup>2 + (cmod (u m j))\<^sup>2) / 2)"
    by (intro sum_mono product_le_half_squares)
  also have "\<dots> = (\<Sum>j<g. ((\<Sum>m<g. (cmod (v m j))\<^sup>2) + (\<Sum>m<g. (cmod (u m j))\<^sup>2)) / 2)"
    by (simp only: sum_divide_distrib [symmetric] sum.distrib)
  also have "\<dots> \<le> (\<Sum>j<g. (1 + 1) / 2)"
  proof (intro sum_mono)
    fix j assume "j \<in> {..<g}"
    then have "j < g" by simp
    from assms(1) [OF this] assms(2) [OF this]
    show "((\<Sum>m<g. (cmod (v m j))\<^sup>2) + (\<Sum>m<g. (cmod (u m j))\<^sup>2)) / 2 \<le> (1 + 1) / 2"
      by simp
  qed
  also have "\<dots> = real g" by simp
  finally show ?thesis .
qed

lemma cnj_times_self: "cnj z * z = complex_of_real ((cmod z)\<^sup>2)"
  by (subst complex_norm_square) (rule mult.commute)

lemma unitary_column_unit:
  assumes "is_unitary g V" and "j < g"
  shows "(\<Sum>m<g. (cmod (V ! m ! j))\<^sup>2) = 1"
proof -
  have "complex_of_real (\<Sum>m<g. (cmod (V ! m ! j))\<^sup>2) = (\<Sum>m<g. cnj (V ! m ! j) * V ! m ! j)"
    by (simp only: cnj_times_self of_real_sum)
  also have "\<dots> = 1" by (rule is_unitary_diagonal [OF assms])
  finally show ?thesis by (simp only: of_real_eq_1_iff)
qed

lemma those_map_Some: "those (map (\<lambda>x. Some (f x)) xs) = Some (map f xs)"
  by (induction xs) simp_all

lemma target_kets_columns:
  assumes "g \<le> c" and "length T = c" and "\<forall>r \<in> set T. length r = c"
  shows "target_kets T g = Some (map (\<lambda>j. map (\<lambda>r. r ! j) T) [0..<g])"
proof (cases "g = 0")
  case True
  then show ?thesis by (simp add: target_kets_def)
next
  case False
  with assms have "ncols T = c" by (intro ncols_rows [where g = c]) simp_all
  with assms(1) have "map (column T) [0..<g] = map (\<lambda>j. Some (map (\<lambda>r. r ! j) T)) [0..<g]"
    by (simp add: column_def)
  then show ?thesis unfolding target_kets_def by (simp only: those_map_Some)
qed

text \<open>
  Claim C6, as amended. For every target whose block of side \<open>g\<close> is unitary and every
  batch of \<open>g\<close> output states of norm at most 1 (unit-norm states among them), the process
  fidelity is computed and lies between 0 and 1; and it is 1 when the output batch is
  the target batch multiplied by one phase, the same for every input.
\<close>

theorem process_fidelity_bounds:
  assumes "1 \<le> g" and "g \<le> c" and "length T = c" and "\<forall>r \<in> set T. length r = c"
    and "is_unitary g (block g T)"
    and "length ket_val = g" and "\<forall>k \<in> set ket_val. length k = c \<and> norm_sq k \<le> 1"
  shows "\<exists>F. diagnostics T ket_val g = Some F \<and> 0 \<le> F \<and> F \<le> 1 \<and>
           (\<forall>theta tk. target_kets T g = Some tk \<and> ket_val = map (scale (cis theta)) tk \<longrightarrow> F = 1)"
proof -
  let ?t = "\<Sum>j<g. \<Sum>m<g. cnj (T ! m ! j) * ket_val ! j ! m"
  let ?F = "(cmod (?t / of_nat g))\<^sup>2"
  have rows: "\<forall>k \<in> set ket_val. length k = c" using assms(7) by blast
  have val: "diagnostics T ket_val g = Some ?F"
    by (rule diagnostics_value [OF assms(2-4,6) rows])
  have g: "0 < real g" using assms(1) by simp
  have F: "?F = (cmod ?t / real g)\<^sup>2" by (simp add: norm_divide)
  have target_unit: "(\<Sum>m<g. (cmod (T ! m ! j))\<^sup>2) = 1" if "j < g" for j
  proof -
    have "(\<Sum>m<g. (cmod (block g T ! m ! j))\<^sup>2) = 1"
      by (rule unitary_column_unit [OF assms(5) that])
    then show ?thesis
      using that by (simp add: block_shape(3) [OF assms(2-4)])
  qed
  have learnt_le: "(\<Sum>m<g. (cmod (ket_val ! j ! m))\<^sup>2) \<le> 1" if "j < g" for j
  proof -
    have "ket_val ! j \<in> set ket_val" using assms(6) that by simp
    then have len: "length (ket_val ! j) = c" and le: "norm_sq (ket_val ! j) \<le> 1"
      using assms(7) by blast+
    have "0 \<le> (\<Sum>m=g..<c. (cmod (ket_val ! j ! m))\<^sup>2)" by (rule sum_nonneg) simp
    then show ?thesis using norm_sq_split [OF assms(2) len] le by simp
  qed
  have "cmod ?t \<le> real g"
    using target_unit learnt_le by (intro trace_bound [where v = "\<lambda>m j. T ! m ! j" and u = "\<lambda>m j. ket_val ! j ! m"]) simp_all
  then have "cmod ?t / real g \<le> 1" using g by simp
  moreover have "0 \<le> cmod ?t / real g" by simp
  ultimately have le: "?F \<le> 1" unfolding F by (simp add: power_le_one)
  have eq: "?F = 1" if tk: "target_kets T g = Some tk" and kv: "ket_val = map (scale (cis theta)) tk"
    for theta tk
  proof -
    have "tk = map (\<lambda>j. map (\<lambda>r. r ! j) T) [0..<g]"
      using tk target_kets_columns [OF assms(2-4)] by simp
    then have entry: "ket_val ! j ! m = cis theta * T ! m ! j" if "j < g" and "m < g" for j m
      using that assms(2,3) by (simp add: kv scale_def)
    have "?t = (\<Sum>j<g. \<Sum>m<g. cis theta * (cnj (T ! m ! j) * T ! m ! j))"
      by (intro sum.cong refl) (simp add: entry)
    also have "\<dots> = cis theta * (\<Sum>j<g. \<Sum>m<g. cnj (T ! m ! j) * T ! m ! j)"
      by (simp add: sum_distrib_left)
    also have "(\<Sum>j<g. \<Sum>m<g. cnj (T ! m ! j) * T ! m ! j) = (\<Sum>j<g. complex_of_real (\<Sum>m<g. (cmod (T ! m ! j))\<^sup>2))"
      by (simp only: cnj_times_self of_real_sum)
    also have "\<dots> = (\<Sum>j<g. 1)"
      by (intro sum.cong refl) (simp add: target_unit)
    finally have "?t = cis theta * of_nat g" by simp
    then have "cmod ?t = real g" by (simp add: norm_mult)
    then show ?thesis using g unfolding F by simp
  qed
  from val le eq show ?thesis by auto
qed

theorem process_fidelity_bounds_witness:
  "diagnostics swap_target swap_kets 2 = Some 1"
proof -
  have u: "is_unitary 2 (block 2 swap_target)"
    by (simp add: is_unitary_def block_def swap_target_def numeral_2_eq_2)
  have n: "\<forall>k \<in> set swap_kets. length k = 3 \<and> norm_sq k \<le> 1"
    by (simp add: swap_kets_def norm_sq_def)
  have tk: "target_kets swap_target 2 = Some swap_kets"
    by (simp add: target_kets_def column_def ncols_def swap_target_def swap_kets_def numeral_2_eq_2)
  have kv: "swap_kets = map (scale (cis 0)) swap_kets"
    by (simp add: swap_kets_def scale_def)
  have "\<exists>F. diagnostics swap_target swap_kets 2 = Some F \<and> 0 \<le> F \<and> F \<le> 1 \<and>
           (\<forall>theta tk. target_kets swap_target 2 = Some tk \<and>
              swap_kets = map (scale (cis theta)) tk \<longrightarrow> F = 1)"
    by (rule process_fidelity_bounds [where c = 3, OF _ _ _ _ u _ n])
      (simp_all add: swap_target_def swap_kets_def)
  then obtain F where "diagnostics swap_target swap_kets 2 = Some F"
    and "\<forall>theta tk. target_kets swap_target 2 = Some tk \<and>
              swap_kets = map (scale (cis theta)) tk \<longrightarrow> F = 1"
    by blast
  with tk kv show ?thesis by blast
qed

text \<open>
  Claim C6 as first stated, with a phase of its own for every input, fails: the outputs
  \<open>|0>\<close> and \<open>-|1>\<close> reproduce the targets \<open>|0>\<close> and \<open>|1>\<close> of the identity up to the phases 0
  and \<open>\<pi>\<close> (gate cutoff 2, cutoff 3), and the process fidelity is 0.
\<close>

theorem process_fidelity_per_input_phase_counterexample:
  "is_unitary 2 (block 2 (np_identity 3)) \<and>
   target_kets (np_identity 3) 2 = Some [[1, 0, 0], [0, 1, 0]] \<and>
   phase_flipped_kets = phase_shifted [0, pi] [[1, 0, 0], [0, 1, 0]] \<and>
   norm_sq (phase_flipped_kets ! 0) = 1 \<and> norm_sq (phase_flipped_kets ! 1) = 1 \<and>
   diagnostics (np_identity 3) phase_flipped_kets 2 = Some 0"
proof -
  have id3: "np_identity 3 = [[1, 0, 0], [0, 1, 0], [0, 0, 1]]"
    by (simp add: np_identity_def numeral_3_eq_3)
  have u: "is_unitary 2 (block 2 (np_identity 3))"
    by (simp add: id3 is_unitary_def block_def numeral_2_eq_2)
  have tk: "target_kets (np_identity 3) 2 = Some [[1, 0, 0], [0, 1, 0]]"
    by (simp add: id3 target_kets_def column_def ncols_def numeral_2_eq_2)
  have ps: "phase_flipped_kets = phase_shifted [0, pi] [[1, 0, 0], [0, 1, 0]]"
    by (simp add: phase_flipped_kets_def phase_shifted_def scale_def)
  have n: "norm_sq (phase_flipped_kets ! 0) = 1 \<and> norm_sq (phase_flipped_kets ! 1) = 1"
    by (simp add: phase_flipped_kets_def norm_sq_def)
  have "diagnostics (np_identity 3) phase_flipped_kets 2 =
          Some ((cmod ((\<Sum>j<2. \<Sum>m<2. cnj (np_identity 3 ! m ! j) * phase_flipped_kets ! j ! m) / of_nat 2))\<^sup>2)"
    by (rule diagnostics_value [where c = 3]) (simp_all add: id3 phase_flipped_kets_def)
  also have "(\<Sum>j<2. \<Sum>m<2. cnj (np_identity 3 ! m ! j) * phase_flipped_kets ! j ! m) = 0"
    by (simp add: id3 phase_flipped_kets_def numeral_2_eq_2)
  finally have d: "diagnostics (np_identity 3) phase_flipped_kets 2 = Some 0"
    by simp
  from u tk ps n d show ?thesis by blast
qed

subsection \<open>Configurations\<close>

lemma those_None: "None \<in> set xs \<Longrightarrow> those xs = None"
  by (induction xs) (auto split: option.splits)

lemma make_target_unitary_shape:
  assumes "make_target_unitary c g W = Some T"
  shows "length T = c" and "\<forall>r \<in> set T. length r = c"
  using assms by (auto simp add: make_target_unitary_def Let_def split: if_splits)

lemma ncols_four:
  assumes "length W = 4" and "\<forall>r \<in> set W. length r = 4"
  shows "ncols W = 4"
  using assms by (cases W) (simp_all add: ncols_def)

lemma make_target_unitary_four:
  assumes "length W = 4" and "\<forall>r \<in> set W. length r = 4"
  shows "(\<exists>T. make_target_unitary c g W = Some T) \<longleftrightarrow> min g c = 4"
  using assms by (auto simp add: make_target_unitary_def Let_def ncols_four list_all_iff)

lemma target_kets_beyond:
  assumes "length T = c" and "\<forall>r \<in> set T. length r = c" and "c < g"
  shows "target_kets T g = None"
proof -
  have "ncols T \<le> c" using assms(1,2) by (cases T) (simp_all add: ncols_def)
  then have "column T c = None" by (simp add: column_def)
  moreover have "c \<in> set [0..<g]" using assms(3) by simp
  ultimately have "None \<in> set (map (column T) [0..<g])" by force
  then show ?thesis unfolding target_kets_def by (rule those_None)
qed

lemma targets_fail:
  assumes "c < g"
  shows "make_target_unitary c g W \<bind> (\<lambda>T. target_kets T g) = None"
proof (cases "make_target_unitary c g W")
  case None
  then show ?thesis by simp
next
  case (Some T)
  from target_kets_beyond [OF make_target_unitary_shape [OF Some] assms] Some
  show ?thesis by simp
qed

lemma parameter_store_defined:
  "(\<exists>vars. parameter_store cfg = Some vars) \<longleftrightarrow> 0 \<le> depth cfg"
  by (auto simp add: parameter_store_def)

lemma well_shaped_variables: "well_shaped d (variable_elements d)"
  by (simp add: well_shaped_def variable_elements_def)

lemma graph_program_built:
  "circuit record_op (variable_elements d) d kets [] =
     Some ((Ket kets, 0) #
       concat (map (\<lambda>k. map (\<lambda>x. (x, 0)) (layer_operations (variable_elements d) k)) [0..<d]))"
  using circuit_record [OF well_shaped_variables, of d kets "[]"] by simp

lemma minimize_graph_program:
  "minimize ((Ket kets, 0) #
       concat (map (\<lambda>k. map (\<lambda>x. (x, 0::nat)) (layer_operations (variable_elements d) k)) [0..<d])) =
     (if d = 0 then None else Some ())"
proof (cases d)
  case 0
  then show ?thesis by (simp add: minimize_def)
next
  case (Suc n)
  then have "[0..<d] = 0 # [1..<d]" by (simp add: upt_conv_Cons)
  then show ?thesis using Suc by (simp add: minimize_def layer_operations_def)
qed

lemma prepare_unfold:
  "prepare cfg W =
     (if depth cfg < 0 \<or> gate_cutoff cfg < 0 \<or> cutoff cfg < 0 \<or> depth cfg = 0 then None
      else map_option
        (\<lambda>tk. \<lparr>store = the (parameter_store cfg),
               graph_program = the (circuit record_op (variable_elements (nat (depth cfg)))
                 (nat (depth cfg)) (in_ket (nat (gate_cutoff cfg)) (nat (cutoff cfg))) []),
               input_kets = in_ket (nat (gate_cutoff cfg)) (nat (cutoff cfg)), targets = tk\<rparr>)
        (make_target_unitary (nat (cutoff cfg)) (nat (gate_cutoff cfg)) W \<bind>
           (\<lambda>T. target_kets T (nat (gate_cutoff cfg)))))"
proof (cases "parameter_store cfg")
  case None
  then have "depth cfg < 0" using parameter_store_defined [of cfg] by auto
  with None show ?thesis by (simp add: prepare_def)
next
  case (Some vars)
  then have d: "0 \<le> depth cfg" using parameter_store_defined [of cfg] by auto
  show ?thesis
    using Some d
    by (cases "make_target_unitary (nat (cutoff cfg)) (nat (gate_cutoff cfg)) W";
        cases "depth cfg = 0")
      (auto simp add: prepare_def Let_def graph_program_built minimize_graph_program
        split: option.splits bind_splits)
qed

lemma prepare_fails:
  assumes "length W = 4" and "\<forall>r \<in> set W. length r = 4"
    and "cutoff cfg < gate_cutoff cfg \<or> gate_cutoff cfg < 1 \<or> depth cfg < 1"
  shows "prepare cfg W = None"
proof (cases "depth cfg < 1 \<or> gate_cutoff cfg < 0 \<or> cutoff cfg < 0")
  case True
  then show ?thesis by (auto simp add: prepare_unfold)
next
  case False
  with assms(3) consider "cutoff cfg < gate_cutoff cfg" | "gate_cutoff cfg = 0" by linarith
  then have "make_target_unitary (nat (cutoff cfg)) (nat (gate_cutoff cfg)) W \<bind>
           (\<lambda>T. target_kets T (nat (gate_cutoff cfg))) = None"
  proof cases
    case 1
    with False have "nat (cutoff cfg) < nat (gate_cutoff cfg)" by simp
    then show ?thesis by (rule targets_fail)
  next
    case 2
    then have "min (nat (gate_cutoff cfg)) (nat (cutoff cfg)) \<noteq> 4" by simp
    with make_target_unitary_four [OF assms(1,2)]
    have "make_target_unitary (nat (cutoff cfg)) (nat (gate_cutoff cfg)) W = None"
      by (metis not_Some_eq)
    then show ?thesis by simp
  qed
  then show ?thesis by (simp add: prepare_unfold)
qed

lemma prepare_succeeds:
  assumes "length W = 4" and "\<forall>r \<in> set W. length r = 4"
    and "gate_cutoff cfg = 4" and "4 \<le> cutoff cfg" and "1 \<le> depth cfg"
  shows "\<exists>p. prepare cfg W = Some p"
proof -
  have c: "4 \<le> nat (cutoff cfg)" using assms(4) by simp
  then have "min 4 (nat (cutoff cfg)) = 4" by simp
  with make_target_unitary_four [OF assms(1,2)]
  obtain T where T: "make_target_unitary (nat (cutoff cfg)) 4 W = Some T" by blast
  from target_kets_columns [OF c make_target_unitary_shape [OF T]]
  obtain tk where "target_kets T 4 = Some tk" by blast
  with T assms(3-5) show ?thesis by (simp add: prepare_unfold)
qed

lemma optimise_history_length:
  "length (cost_progress (optimise run n s0)) = nat n"
  by (simp add: optimise_loop loop_cost_progress)

text \<open>
  Claim C9, as amended. The notebook has no check of its configuration, and yet every
  configuration with \<open>gate_cutoff > cutoff\<close>, with \<open>gate_cutoff < 1\<close> or with a depth that is
  not positive fails before the loop: in the cells that make the variables, the target
  states or the optimiser. The standard deviations and \<open>reps\<close> are never the reason of a
  failure: a configuration with \<open>gate_cutoff = 4 \<le> cutoff\<close> (4 is the side of the unitary
  the notebook assigns) and a positive depth gets through these cells whatever they
  are, and the loop takes its \<open>reps\<close> iterations (none when \<open>reps\<close> is negative).
\<close>

theorem no_configuration_check:
  assumes "length W = 4" and "\<forall>r \<in> set W. length r = 4"
  shows "(cutoff cfg < gate_cutoff cfg \<or> gate_cutoff cfg < 1 \<or> depth cfg < 1 \<longrightarrow>
            prepare cfg W = None \<and> run_notebook run s0 cfg W = None) \<and>
         (gate_cutoff cfg = 4 \<and> 4 \<le> cutoff cfg \<and> 1 \<le> depth cfg \<longrightarrow>
            (\<exists>p. prepare cfg W = Some p) \<and>
            (\<exists>st. run_notebook run s0 cfg W = Some st \<and>
               length (cost_progress st) = nat (reps cfg) \<and>
               length (overlap_progress st) = nat (reps cfg)))"
proof (intro conjI impI)
  assume "cutoff cfg < gate_cutoff cfg \<or> gate_cutoff cfg < 1 \<or> depth cfg < 1"
  then show "prepare cfg W = None" by (rule prepare_fails [OF assms])
  then show "run_notebook run s0 cfg W = None" by (simp add: run_notebook_def)
next
  assume a: "gate_cutoff cfg = 4 \<and> 4 \<le> cutoff cfg \<and> 1 \<le> depth cfg"
  then obtain p where p: "prepare cfg W = Some p"
    using prepare_succeeds [OF assms, of cfg] by blast
  then show "\<exists>p. prepare cfg W = Some p" by blast
  from p show "\<exists>st. run_notebook run s0 cfg W = Some st \<and>
               length (cost_progress st) = nat (reps cfg) \<and>
               length (overlap_progress st) = nat (reps cfg)"
    by (simp add: run_notebook_def optimise_loop loop_cost_progress loop_overlap_progress)
qed

theorem no_configuration_check_witness:
  "prepare (reference_config\<lparr>cutoff := 4, gate_cutoff := 5\<rparr>) (np_identity 4) = None \<and>
   prepare (reference_config\<lparr>depth := 0\<rparr>) (np_identity 4) = None \<and>
   prepare (reference_config\<lparr>depth := - 1\<rparr>) (np_identity 4) = None \<and>
   map_option (length \<circ> cost_progress) (run_notebook counting_run 0 reference_config (np_identity 4)) =
     Some 1000"
proof -
  have W: "length (np_identity 4) = 4" "\<forall>r \<in> set (np_identity 4). length r = 4"
    by (simp_all add: np_identity_def)
  show ?thesis
    using no_configuration_check [OF W, of "reference_config\<lparr>cutoff := 4, gate_cutoff := 5\<rparr>" counting_run 0]
      no_configuration_check [OF W, of "reference_config\<lparr>depth := 0\<rparr>" counting_run 0]
      no_configuration_check [OF W, of "reference_config\<lparr>depth := - 1\<rparr>" counting_run 0]
      no_configuration_check [OF W, of reference_config counting_run 0]
    by (auto simp add: reference_config_def)
qed

text \<open>
  Claim C9 as first stated, that every invalid configuration is rejected before the
  loop, fails: the notebook's configuration with \<open>passive_sd = 0\<close> is one the
  specification calls invalid, and the cells before the loop succeed and the loop takes
  its 1000 iterations.
\<close>

theorem invalid_configuration_accepted_counterexample:
  "\<not> spec_valid_config zero_sd_config \<and>
   prepare zero_sd_config (np_identity 4) \<noteq> None \<and>
   map_option (length \<circ> cost_progress) (run_notebook counting_run 0 zero_sd_config (np_identity 4)) =
     Some 1000"
proof -
  have W: "length (np_identity 4) = 4" "\<forall>r \<in> set (np_identity 4). length r = 4"
    by (simp_all add: np_identity_def)
  have cfg: "gate_cutoff zero_sd_config = 4" "4 \<le> cutoff zero_sd_config"
    "1 \<le> depth zero_sd_config" "reps zero_sd_config = 1000"
    by (simp_all add: zero_sd_config_def reference_config_def)
  obtain p where p: "prepare zero_sd_config (np_identity 4) = Some p"
    using prepare_succeeds [OF W cfg(1-3)] by blast
  have "\<not> spec_valid_config zero_sd_config"
    by (simp add: spec_valid_config_def zero_sd_config_def)
  moreover have "prepare zero_sd_config (np_identity 4) \<noteq> None"
    using p by simp
  moreover have "map_option (length \<circ> cost_progress)
      (run_notebook counting_run 0 zero_sd_config (np_identity 4)) = Some 1000"
    using p cfg(4) by (simp add: run_notebook_def optimise_history_length)
  ultimately show ?thesis by blast
qed

end
